theory Spec2Isabelle
  imports Complex_Main "HOL-Library.Word"
begin

unbundle bit_operations_syntax

section \<open>Data model\<close>

text \<open>
  The program reads a whole file into a Python \<open>bytes\<close> object. A byte is an
  8-bit word here; reading \<open>data[i]\<close> gives the Python integer \<open>uint (data ! i)\<close>.
  Python integers are unbounded and are modelled as \<open>int\<close>.
\<close>

type_synonym byte = "8 word"

section \<open>Channel classifier\<close>

text \<open>The literal list \<open>op_ch_map\<close> of \<open>get_channel_from_reg\<close>.\<close>

definition op_ch_map :: "int list" where
  "op_ch_map = [0, 1, 2, 0, 1, 2, -1, -1, 3, 4, 5, 3, 4, 5, -1, -1, 6, 7, 8, 6, 7, 8]"

text \<open>
  \<open>get_channel_from_reg(bank, reg)\<close>: the channel number, or \<open>-1\<close> when the register
  is not channel-specific. \<open>offset\<close> is never negative (Python's \<open>%\<close> with a positive
  modulus, like HOL's \<open>mod\<close>), so \<open>op_ch_map[offset]\<close> is a forward index, and it is
  guarded by \<open>offset < len(op_ch_map)\<close>.
\<close>

definition get_channel_from_reg :: "int \<Rightarrow> int \<Rightarrow> int" where
  "get_channel_from_reg bank reg =
     (let base_ch = (if bank = 0 then 0 else 9) in
      if (0xA0 \<le> reg \<and> reg \<le> 0xA8) \<or> (0xB0 \<le> reg \<and> reg \<le> 0xB8) \<or> (0xC0 \<le> reg \<and> reg \<le> 0xC8)
      then base_ch + (reg AND 0x0F)
      else if (0x20 \<le> reg \<and> reg \<le> 0x35) \<or> (0x40 \<le> reg \<and> reg \<le> 0x55) \<or>
              (0x60 \<le> reg \<and> reg \<le> 0x75) \<or> (0x80 \<le> reg \<and> reg \<le> 0x95) \<or>
              (0xE0 \<le> reg \<and> reg \<le> 0xF5)
      then (let offset = reg mod 0x20 in
            if offset > 0x15 then -1
            else if offset < int (length op_ch_map)
            then (let ch_offset = op_ch_map ! nat offset in
                  if ch_offset \<noteq> -1 then base_ch + ch_offset else -1)
            else -1)
      else -1)"

section \<open>Reading the buffer\<close>

text \<open>
  What can stop an operation. \<open>BadMagic\<close> and \<open>UnsupportedVersion\<close> are the two
  checked conditions: the program prints its error message and returns before anything
  is written. \<open>StructError\<close> is \<open>struct.error\<close>, raised by \<open>struct.unpack('<H', ...)\<close>
  on a slice that is not exactly two bytes long; \<open>IndexError\<close> is raised by \<open>data[i]\<close>
  with \<open>i\<close> past the end. Both are uncaught, so the program ends there and the output
  file, written only after the loop, is never written.
\<close>

datatype error = BadMagic | UnsupportedVersion | StructError | IndexError

text \<open>The byte string \<open>b'DBRAWOPL'\<close>.\<close>

definition magic :: "byte list" where
  "magic = [0x44, 0x42, 0x52, 0x41, 0x57, 0x4F, 0x50, 0x4C]"

text \<open>A Python slice \<open>data[a:b]\<close> with \<open>0 \<le> a \<le> b\<close>: clipped to the buffer, never an error.\<close>

definition slice :: "byte list \<Rightarrow> nat \<Rightarrow> nat \<Rightarrow> byte list" where
  "slice data a b = take (b - a) (drop a data)"

text \<open>\<open>struct.unpack('<H', bs)[0]\<close>: a little-endian unsigned 16-bit integer.\<close>

definition unpack_H :: "byte list \<Rightarrow> error + int" where
  "unpack_H bs = (case bs of [lo, hi] \<Rightarrow> Inr (uint lo + 256 * uint hi) | _ \<Rightarrow> Inl StructError)"

text \<open>\<open>data[i]\<close> for an index \<open>i \<ge> 0\<close>.\<close>

definition byte_at :: "byte list \<Rightarrow> nat \<Rightarrow> error + int" where
  "byte_at data i = (if i < length data then Inr (uint (data ! i)) else Inl IndexError)"

text \<open>
  The header of a DRO file as the two filters read it: \<open>remove_channel\<close> and
  \<open>isolate_channel\<close> begin with the same statements (the magic and version checks,
  \<open>short_delay_code\<close>, \<open>long_delay_code\<close>, \<open>codemap_len\<close>, \<open>codemap\<close>, \<open>stream_start\<close>),
  which are written once here.
\<close>

record header =
  short_delay_code :: int
  long_delay_code :: int
  codemap :: "byte list"
  stream_start :: nat

definition read_header :: "byte list \<Rightarrow> error + header" where
  "read_header data =
     (if slice data 0 8 \<noteq> magic then Inl BadMagic
      else (case unpack_H (slice data 8 10) of
        Inl e \<Rightarrow> Inl e
      | Inr ver_major \<Rightarrow>
          (if ver_major \<noteq> 2 then Inl UnsupportedVersion
           else (case byte_at data 23 of
             Inl e \<Rightarrow> Inl e
           | Inr sd \<Rightarrow>
               (case byte_at data 24 of
                  Inl e \<Rightarrow> Inl e
                | Inr ld \<Rightarrow>
                    (case byte_at data 25 of
                       Inl e \<Rightarrow> Inl e
                     | Inr codemap_len \<Rightarrow>
                         (let codemap_start = 26 in
                          Inr \<lparr> short_delay_code = sd, long_delay_code = ld,
                                codemap = slice data codemap_start (codemap_start + nat codemap_len),
                                stream_start = codemap_start + nat codemap_len \<rparr>)))))))"

section \<open>Stream filters\<close>

text \<open>
  The \<open>while i < len(data)\<close> loop of \<open>remove_channel\<close>. The state is the cursor \<open>i\<close>,
  the output buffer and the counter of dropped commands. The second byte of a token is
  read with \<open>data[i]\<close> unguarded, which raises when the buffer ends after the first.
\<close>

function remove_loop ::
  "byte list \<Rightarrow> header \<Rightarrow> int \<Rightarrow> nat \<Rightarrow> byte list \<Rightarrow> nat \<Rightarrow> error + (byte list \<times> nat)" where
  "remove_loop data h target_channel i out_data dropped_commands =
     (if i < length data then
        (let code = uint (data ! i) in
         if code = short_delay_code h \<or> code = long_delay_code h then
           (case byte_at data (i + 1) of
              Inl e \<Rightarrow> Inl e
            | Inr val \<Rightarrow>
                remove_loop data h target_channel (i + 2)
                  (out_data @ [word_of_int code, word_of_int val]) dropped_commands)
         else
           (case byte_at data (i + 1) of
              Inl e \<Rightarrow> Inl e
            | Inr val \<Rightarrow>
                (let bank = drop_bit 7 code AND 1;
                     idx = code AND 0x7F in
                 if idx \<ge> int (length (codemap h)) then
                   remove_loop data h target_channel (i + 2)
                     (out_data @ [word_of_int code, word_of_int val]) dropped_commands
                 else
                   (let reg = uint (codemap h ! nat idx);
                        ch = get_channel_from_reg bank reg in
                    if ch = target_channel then
                      remove_loop data h target_channel (i + 2) out_data (dropped_commands + 1)
                    else
                      remove_loop data h target_channel (i + 2)
                        (out_data @ [word_of_int code, word_of_int val]) dropped_commands))))
      else Inr (out_data, dropped_commands))"
  by pat_completeness auto
termination
  by (relation "measure (\<lambda>(data, h, t, i, out, d). length data - i)") auto

text \<open>
  \<open>remove_channel\<close> on the bytes of the input file: the bytes written to the output
  file and the number printed as dropped, or the reason nothing was written.
\<close>

definition remove_channel :: "byte list \<Rightarrow> int \<Rightarrow> error + (byte list \<times> nat)" where
  "remove_channel data target_channel =
     (case read_header data of
        Inl e \<Rightarrow> Inl e
      | Inr h \<Rightarrow> remove_loop data h target_channel (stream_start h) (take (stream_start h) data) 0)"

text \<open>The loop of \<open>isolate_channel\<close>; register \<open>0xBD\<close> is tested before the channel.\<close>

function isolate_loop ::
  "byte list \<Rightarrow> header \<Rightarrow> int \<Rightarrow> nat \<Rightarrow> byte list \<Rightarrow> nat \<Rightarrow> error + (byte list \<times> nat)" where
  "isolate_loop data h target_channel i out_data dropped_commands =
     (if i < length data then
        (let code = uint (data ! i) in
         if code = short_delay_code h \<or> code = long_delay_code h then
           (case byte_at data (i + 1) of
              Inl e \<Rightarrow> Inl e
            | Inr val \<Rightarrow>
                isolate_loop data h target_channel (i + 2)
                  (out_data @ [word_of_int code, word_of_int val]) dropped_commands)
         else
           (case byte_at data (i + 1) of
              Inl e \<Rightarrow> Inl e
            | Inr val \<Rightarrow>
                (let bank = drop_bit 7 code AND 1;
                     idx = code AND 0x7F in
                 if idx \<ge> int (length (codemap h)) then
                   isolate_loop data h target_channel (i + 2)
                     (out_data @ [word_of_int code, word_of_int val]) dropped_commands
                 else
                   (let reg = uint (codemap h ! nat idx);
                        ch = get_channel_from_reg bank reg in
                    if reg = 0xBD then
                      isolate_loop data h target_channel (i + 2)
                        (out_data @ [word_of_int code, word_of_int val]) dropped_commands
                    else if ch = target_channel \<or> ch = -1 then
                      isolate_loop data h target_channel (i + 2)
                        (out_data @ [word_of_int code, word_of_int val]) dropped_commands
                    else
                      isolate_loop data h target_channel (i + 2) out_data (dropped_commands + 1)))))
      else Inr (out_data, dropped_commands))"
  by pat_completeness auto
termination
  by (relation "measure (\<lambda>(data, h, t, i, out, d). length data - i)") auto

definition isolate_channel :: "byte list \<Rightarrow> int \<Rightarrow> error + (byte list \<times> nat)" where
  "isolate_channel data target_channel =
     (case read_header data of
        Inl e \<Rightarrow> Inl e
      | Inr h \<Rightarrow> isolate_loop data h target_channel (stream_start h) (take (stream_start h) data) 0)"

section \<open>Dumper\<close>

text \<open>
  Python's \<open>str\<close> of an integer (the \<open>{ch}\<close>, \<open>{block}\<close>, \<open>{val}\<close> fields of the
  f-strings) and the format \<open>{reg:02X}\<close>: upper-case hexadecimal, padded with a zero
  to the width two, which a minus sign counts towards.
\<close>

fun str_nat :: "nat \<Rightarrow> string" where
  "str_nat n = (if n < 10 then [''0123456789'' ! n]
                else str_nat (n div 10) @ [''0123456789'' ! (n mod 10)])"

definition str_int :: "int \<Rightarrow> string" where
  "str_int k = (if k < 0 then CHR ''-'' # str_nat (nat (- k)) else str_nat (nat k))"

fun hex_nat :: "nat \<Rightarrow> string" where
  "hex_nat n = (if n < 16 then [''0123456789ABCDEF'' ! n]
                else hex_nat (n div 16) @ [''0123456789ABCDEF'' ! (n mod 16)])"

definition fmt_02X :: "int \<Rightarrow> string" where
  "fmt_02X k =
     (if k < 0 then CHR ''-'' # hex_nat (nat (- k))
      else if k < 16 then CHR ''0'' # hex_nat (nat k)
      else hex_nat (nat k))"

definition str_bool :: "bool \<Rightarrow> string" where
  "str_bool b = (if b then ''True'' else ''False'')"

text \<open>
  One printed table row, as its fields: the offset of the token, the accumulated time,
  the bank, the register, the value and the description. \<open>ErrRow\<close> is the row printed
  for a codemap index out of range, whose register column holds the index followed by
  a question mark.
\<close>

datatype dump_row =
    Row nat int int int int string
  | ErrRow nat int int int int string

text \<open>
  The description computed from \<open>reg\<close> and \<open>val\<close> by the \<open>if\<close>/\<open>elif\<close> chain of
  \<open>dump_dro\<close>; the empty string when no branch applies.
\<close>

definition describe :: "int \<Rightarrow> int \<Rightarrow> string" where
  "describe reg val =
     (if 0xB0 \<le> reg \<and> reg \<le> 0xB8 then
        (let ch = reg - 0xB0;
             key_on = (val AND 0x20 \<noteq> 0);
             block = drop_bit 2 (val AND 0x1C);
             f_high = val AND 0x03;
             desc = ''CH '' @ str_int ch @ '' | KeyOn: '' @ str_bool key_on @
                    '' | Blk: '' @ str_int block @ '' | F-Hi: '' @ str_int f_high
         in if key_on then desc @ '' <--- NOTE START'' else desc)
      else if 0xA0 \<le> reg \<and> reg \<le> 0xA8 then
        (let ch = reg - 0xA0 in ''CH '' @ str_int ch @ '' | F-Low: '' @ str_int val)
      else if 0xC0 \<le> reg \<and> reg \<le> 0xC8 then
        (let ch = reg - 0xC0;
             fb = drop_bit 1 (val AND 0x0E);
             cnt = val AND 1
         in ''CH '' @ str_int ch @ '' | FB: '' @ str_int fb @ '' | CNT: '' @ str_int cnt)
      else if 0x20 \<le> reg \<and> reg \<le> 0x35 then
        ''OP-Reg '' @ fmt_02X reg @ '' | TVSKM''
      else if 0x40 \<le> reg \<and> reg \<le> 0x55 then
        ''OP-Reg '' @ fmt_02X reg @ '' | Level: '' @ str_int (val AND 0x3F)
      else if reg = 0xBD then ''Rhythm Control''
      else [])"

text \<open>
  The loop of \<open>dump_dro\<close>. Its state is the cursor, the accumulated time and the rows
  printed so far. Every read of \<open>data[i]\<close> is behind \<open>if i >= len(data): break\<close> or the
  loop condition, so the loop raises nothing; \<open>break\<close> returns the state as it is.
\<close>

function dump_loop ::
  "byte list \<Rightarrow> int \<Rightarrow> int \<Rightarrow> byte list \<Rightarrow> nat \<Rightarrow> int \<Rightarrow> dump_row list \<Rightarrow> dump_row list \<times> int" where
  "dump_loop data sd ld cm i time_accum rows =
     (if i < length data then
        (let offset = i;
             code = uint (data ! i) in
         if code = sd then
           (if i + 1 \<ge> length data then (rows, time_accum)
            else (let val = uint (data ! (i + 1));
                      delay = val + 1
                  in dump_loop data sd ld cm (i + 2) (time_accum + delay) rows))
         else if code = ld then
           (if i + 1 \<ge> length data then (rows, time_accum)
            else (let val = uint (data ! (i + 1));
                      delay = (val + 1) * 256
                  in dump_loop data sd ld cm (i + 2) (time_accum + delay) rows))
         else if i + 1 \<ge> length data then (rows, time_accum)
         else
           (let val = uint (data ! (i + 1));
                bank = drop_bit 7 code AND 1;
                idx = code AND 0x7F in
            if idx \<ge> int (length cm) then
              dump_loop data sd ld cm (i + 2) time_accum
                (rows @ [ErrRow offset time_accum bank idx val
                           (''ERROR: Index '' @ str_int idx @ '' out of bounds'')])
            else
              (let reg = uint (cm ! nat idx);
                   desc = describe reg val in
               if desc \<noteq> [] then
                 dump_loop data sd ld cm (i + 2) time_accum
                   (rows @ [Row offset time_accum bank reg val desc])
               else dump_loop data sd ld cm (i + 2) time_accum rows)))
      else (rows, time_accum))"
  by pat_completeness auto
termination
  by (relation "measure (\<lambda>(data, sd, ld, cm, i, t, rows). length data - i)") auto

text \<open>
  \<open>dump_dro\<close> on the bytes of the file: the table rows in the order printed and the
  accumulated time when the loop ends. The header is read as in the filters, except
  that the minor version is unpacked, from \<open>data[10:12]\<close>, before the major version is
  tested. The \<open>Header Info\<close> line and the two heading lines are fixed text and are
  left out.
\<close>

definition dump_dro :: "byte list \<Rightarrow> error + (dump_row list \<times> int)" where
  "dump_dro data =
     (if slice data 0 8 \<noteq> magic then Inl BadMagic
      else (case unpack_H (slice data 8 10) of
        Inl e \<Rightarrow> Inl e
      | Inr ver_major \<Rightarrow>
          (case unpack_H (slice data 10 12) of
             Inl e \<Rightarrow> Inl e
           | Inr ver_minor \<Rightarrow>
               (if ver_major \<noteq> 2 then Inl UnsupportedVersion
                else (case byte_at data 23 of
                  Inl e \<Rightarrow> Inl e
                | Inr sd \<Rightarrow>
                    (case byte_at data 24 of
                       Inl e \<Rightarrow> Inl e
                     | Inr ld \<Rightarrow>
                         (case byte_at data 25 of
                            Inl e \<Rightarrow> Inl e
                          | Inr codemap_len \<Rightarrow>
                              (let codemap_start = 26;
                                   cm = slice data codemap_start (codemap_start + nat codemap_len)
                               in Inr (dump_loop data sd ld cm (codemap_start + nat codemap_len) 0 [])))))))))"

section \<open>Pitch shift calculator\<close>

text \<open>Python's \<open>int(x)\<close> on a float: truncation towards zero.\<close>

definition py_int :: "real \<Rightarrow> int" where
  "py_int x = (if x \<ge> 0 then \<lfloor>x\<rfloor> else \<lceil>x\<rceil>)"

text \<open>The two normalisation loops of \<open>calc_shift\<close>, on the pair \<open>(new_f_num, new_block)\<close>.\<close>

function block_up :: "int \<Rightarrow> int \<Rightarrow> int \<times> int" where
  "block_up new_f_num new_block =
     (if new_f_num \<ge> 1024 \<and> new_block < 7 then block_up (new_f_num div 2) (new_block + 1)
      else (new_f_num, new_block))"
  by pat_completeness auto
termination
  by (relation "measure (\<lambda>(f, b). nat (7 - b))") auto

function block_down :: "int \<Rightarrow> int \<Rightarrow> int \<times> int" where
  "block_down new_f_num new_block =
     (if new_f_num < 512 \<and> new_block > 0 then block_down (new_f_num * 2) (new_block - 1)
      else (new_f_num, new_block))"
  by pat_completeness auto
termination
  by (relation "measure (\<lambda>(f, b). nat b)") auto

text \<open>
  \<open>calc_shift(hex_a0, hex_b0, semitones)\<close>: the pair \<open>(new_f_low, new_b0_val)\<close> printed
  as the replacement bytes. The float \<open>semitones\<close> is a real number here and
  \<open>2 ** (semitones / 12.0)\<close> the real power; at \<open>semitones = 0\<close> the float computation
  is exact (\<open>0 / 12.0 = 0.0\<close>, \<open>2 ** 0.0 = 1.0\<close>, and \<open>n * 1.0\<close> is \<open>n\<close> for an integer
  below \<open>2 ^ 53\<close>), so there the two agree.
\<close>

definition calc_shift :: "int \<Rightarrow> int \<Rightarrow> real \<Rightarrow> int \<times> int" where
  "calc_shift hex_a0 hex_b0 semitones =
     (let f_low = hex_a0;
          key_on = hex_b0 AND 0x20;
          block = drop_bit 2 (hex_b0 AND 0x1C);
          f_high = hex_b0 AND 0x03;
          current_f_num = push_bit 8 f_high OR f_low;
          multiplier = 2 powr (semitones / 12);
          new_f_num = py_int (real_of_int current_f_num * multiplier);
          new_block = block;
          (new_f_num, new_block) = block_up new_f_num new_block;
          (new_f_num, new_block) = block_down new_f_num new_block;
          new_f_low = new_f_num AND 0xFF;
          new_f_high = drop_bit 8 new_f_num AND 0x03;
          new_b0_val = key_on OR push_bit 2 new_block OR new_f_high
      in (new_f_low, new_b0_val))"

section \<open>The token view of the command stream\<close>

text \<open>
  The filters decode the stream inline. To state what they keep and drop, the stream
  is also described the way the format is specified: a sequence of two-byte tokens,
  each a delay or a register write. The definitions of this section are not
  translations of source functions: they follow the specification of the format and
  of the two policies, and the theorems below relate them to the loops above.
\<close>

text \<open>The tokens of a byte sequence, two bytes each; a lone last byte is no token.\<close>

fun stream_tokens :: "byte list \<Rightarrow> (byte \<times> byte) list" where
  "stream_tokens (code # val # rest) = (code, val) # stream_tokens rest"
| "stream_tokens _ = []"

text \<open>The bytes of a sequence of tokens.\<close>

definition token_bytes :: "(byte \<times> byte) list \<Rightarrow> byte list" where
  "token_bytes ts = concat (map (\<lambda>(code, val). [code, val]) ts)"

text \<open>A token is a delay when its first byte is the short-delay or the long-delay opcode.\<close>

definition is_delay :: "header \<Rightarrow> byte \<times> byte \<Rightarrow> bool" where
  "is_delay h t \<longleftrightarrow> uint (fst t) = short_delay_code h \<or> uint (fst t) = long_delay_code h"

text \<open>Of a register write: the bank is bit 7 of the first byte, the codemap index bits 0 to 6.\<close>

definition token_bank :: "byte \<times> byte \<Rightarrow> int" where
  "token_bank t = drop_bit 7 (uint (fst t)) AND 1"

definition codemap_index :: "byte \<times> byte \<Rightarrow> int" where
  "codemap_index t = uint (fst t) AND 0x7F"

text \<open>The register a codemap index resolves to, and the channel it is classified to.\<close>

definition resolved_register :: "header \<Rightarrow> byte \<times> byte \<Rightarrow> int" where
  "resolved_register h t = uint (codemap h ! nat (codemap_index t))"

definition token_channel :: "header \<Rightarrow> byte \<times> byte \<Rightarrow> int" where
  "token_channel h t = get_channel_from_reg (token_bank t) (resolved_register h t)"

text \<open>A resolved write: a register write whose codemap index is inside the codemap.\<close>

definition resolved_write :: "header \<Rightarrow> byte \<times> byte \<Rightarrow> bool" where
  "resolved_write h t \<longleftrightarrow> \<not> is_delay h t \<and> codemap_index t < int (length (codemap h))"

text \<open>The policy of Remove: drop the resolved writes of the target channel.\<close>

definition remove_drops_spec :: "header \<Rightarrow> int \<Rightarrow> byte \<times> byte \<Rightarrow> bool" where
  "remove_drops_spec h c t \<longleftrightarrow> resolved_write h t \<and> token_channel h t = c"

text \<open>
  The policy of Isolate: keep what is not a resolved write, and of the resolved writes
  those of register \<open>0xBD\<close>, of the target channel and of no channel.
\<close>

definition isolate_keeps_spec :: "header \<Rightarrow> int \<Rightarrow> byte \<times> byte \<Rightarrow> bool" where
  "isolate_keeps_spec h c t \<longleftrightarrow>
     \<not> resolved_write h t \<or> resolved_register h t = 0xBD \<or> token_channel h t = c \<or> token_channel h t = -1"

text \<open>
  The header fields of a file by their offsets: the delay opcodes at 23 and 24, the
  codemap length at 25, the codemap from 26, the stream right after it.
\<close>

definition dro_header :: "byte list \<Rightarrow> header" where
  "dro_header data =
     \<lparr> short_delay_code = uint (data ! 23), long_delay_code = uint (data ! 24),
       codemap = take (unat (data ! 25)) (drop 26 data),
       stream_start = 26 + unat (data ! 25) \<rparr>"

text \<open>
  A valid DRO v2 file: the magic tag, major version 2, the whole codemap present, and
  a command stream of whole two-byte tokens.
\<close>

definition valid_dro :: "byte list \<Rightarrow> bool" where
  "valid_dro data \<longleftrightarrow>
     take 8 data = magic \<and> 26 \<le> length data \<and> uint (data ! 8) + 256 * uint (data ! 9) = 2 \<and>
     26 + unat (data ! 25) \<le> length data \<and> even (length data - (26 + unat (data ! 25)))"

section \<open>Example files\<close>

text \<open>
  A file with the magic tag, version 2.0, zero length and hardware fields, the two
  delay opcodes \<open>sd\<close> and \<open>ld\<close>, the codemap \<open>[0xB0]\<close>, the token \<open>(0x00, 0x30)\<close> and a
  token \<open>(delay_code, 9)\<close>.
\<close>

definition scenario_file :: "byte \<Rightarrow> byte \<Rightarrow> byte \<Rightarrow> byte list" where
  "scenario_file sd ld delay_code =
     magic @ [2, 0, 0, 0, 0, 0, 0, 0, 0, 0, 0, 0, 0, 0, 0, sd, ld, 1, 0xB0, 0x00, 0x30, delay_code, 9]"

text \<open>A header with an empty codemap followed by a single byte.\<close>

definition lone_byte_file :: "byte list" where
  "lone_byte_file = magic @ [2, 0, 0, 0, 0, 0, 0, 0, 0, 0, 0, 0, 0, 0, 0, 0, 1, 0, 0x05]"

text \<open>A 26-byte file whose header announces a codemap of five bytes.\<close>

definition short_codemap_file :: "byte list" where
  "short_codemap_file = magic @ [2, 0, 0, 0, 0, 0, 0, 0, 0, 0, 0, 0, 0, 0, 0, 0, 1, 5]"

text \<open>
  A file with delay opcodes \<open>0x7E\<close> and \<open>0x7F\<close>, the codemap \<open>[0xB0, 0xBD, 0x43]\<close> and
  seven tokens: a write to \<open>0xB0\<close> in bank 0 (channel 0), a short delay, a write to
  \<open>0xBD\<close> in bank 1, a write to \<open>0x43\<close> in bank 1 (channel 9), a write with index 5
  (out of range), a long delay and a write to \<open>0x43\<close> in bank 0 (channel 0).
\<close>

definition sample_file :: "byte list" where
  "sample_file =
     magic @ [2, 0, 0, 0, 0, 0, 0, 0, 0, 0, 0, 0, 0, 0, 0, 0x7E, 0x7F, 3, 0xB0, 0xBD, 0x43,
              0x00, 0x30, 0x7E, 9, 0x81, 0x20, 0x82, 0x11, 0x05, 0x01, 0x7F, 0x00, 0x02, 0x3F]"

text \<open>A file whose eighth byte differs from the magic tag, and a file of version 1.0.\<close>

definition wrong_magic_file :: "byte list" where
  "wrong_magic_file = [0x44, 0x42, 0x52, 0x41, 0x57, 0x4F, 0x50, 0x4D, 2, 0, 0, 0]"

definition version_1_file :: "byte list" where
  "version_1_file = magic @ [1, 0, 0, 0]"

section \<open>Properties of the channel classifier\<close>

lemma and_mask_mod: "(x::int) AND mask n = x mod 2 ^ n"
  by (simp add: take_bit_eq_mod flip: take_bit_eq_mask)

lemma and_0F_mod: "(x::int) AND 0x0F = x mod 16"
  using and_mask_mod [of x 4] by (simp add: mask_eq_exp_minus_1)

lemma op_ch_map_nth:
  "n < 22 \<Longrightarrow>
     (op_ch_map ! n = -1 \<and> n \<in> {6, 7, 14, 15}) \<or>
     (0 \<le> op_ch_map ! n \<and> op_ch_map ! n \<le> 8 \<and> n \<notin> {6, 7, 14, 15})"
  unfolding op_ch_map_def by (simp add: nth_Cons')

lemma operator_offset:
  assumes "(0x20 \<le> reg \<and> reg \<le> 0x35) \<or> (0x40 \<le> reg \<and> reg \<le> 0x55) \<or>
           (0x60 \<le> reg \<and> reg \<le> 0x75) \<or> (0x80 \<le> reg \<and> reg \<le> 0x95) \<or>
           (0xE0 \<le> reg \<and> reg \<le> (0xF5::int))"
  shows "0 \<le> reg mod 0x20 \<and> reg mod 0x20 \<le> 0x15"
  using assms by presburger

lemma operator_channel:
  assumes "(0x20 \<le> reg \<and> reg \<le> 0x35) \<or> (0x40 \<le> reg \<and> reg \<le> 0x55) \<or>
           (0x60 \<le> reg \<and> reg \<le> 0x75) \<or> (0x80 \<le> reg \<and> reg \<le> 0x95) \<or>
           (0xE0 \<le> reg \<and> reg \<le> 0xF5)"
  shows "get_channel_from_reg bank reg =
           (if op_ch_map ! nat (reg mod 0x20) = -1 then -1
            else (if bank = 0 then 0 else 9) + op_ch_map ! nat (reg mod 0x20))"
proof -
  have off: "0 \<le> reg mod 0x20 \<and> reg mod 0x20 \<le> 0x15"
    using assms by (rule operator_offset)
  have notch: "\<not> ((0xA0 \<le> reg \<and> reg \<le> 0xA8) \<or> (0xB0 \<le> reg \<and> reg \<le> 0xB8) \<or> (0xC0 \<le> reg \<and> reg \<le> 0xC8))"
    using assms by arith
  have len: "int (length op_ch_map) = 22" by (simp add: op_ch_map_def)
  have a: "\<not> reg mod 0x20 > 0x15" and b: "reg mod 0x20 < 22"
    using off by simp_all
  show ?thesis
    unfolding get_channel_from_reg_def Let_def len
    by (simp only: if_not_P [OF notch] if_P [OF assms] if_not_P [OF a] if_P [OF b] not_not
        split: if_splits) simp
qed

text \<open>
  Claim C1. For a bank in \<open>{0, 1}\<close> and a register in one of the five per-operator
  ranges, the offset \<open>reg mod 0x20\<close> lies inside the 22-entry table, the classifier
  returns the base of the bank plus the table entry at that offset when the entry is
  valid and the sentinel \<open>-1\<close> (Global) when it is not, and the invalid entries are
  those of the offsets \<open>0x06\<close>, \<open>0x07\<close>, \<open>0x0E\<close> and \<open>0x0F\<close>.
\<close>

theorem classify_operator_registers:
  assumes "bank = 0 \<or> bank = 1"
    and "(0x20 \<le> reg \<and> reg \<le> 0x35) \<or> (0x40 \<le> reg \<and> reg \<le> 0x55) \<or>
         (0x60 \<le> reg \<and> reg \<le> 0x75) \<or> (0x80 \<le> reg \<and> reg \<le> 0x95) \<or>
         (0xE0 \<le> reg \<and> reg \<le> 0xF5)"
  shows "reg mod 0x20 \<le> 0x15 \<and>
         get_channel_from_reg bank reg =
           (let table = [0, 1, 2, 0, 1, 2, -1, -1, 3, 4, 5, 3, 4, 5, -1, -1, 6, 7, 8, 6, 7, 8];
                base = (if bank = 0 then 0 else 9);
                offset = nat (reg mod 0x20)
            in if table ! offset = -1 then -1 else base + table ! offset) \<and>
         (get_channel_from_reg bank reg = -1 \<longleftrightarrow> reg mod 0x20 \<in> {0x06, 0x07, 0x0E, 0x0F})"
proof -
  have off: "0 \<le> reg mod 0x20 \<and> reg mod 0x20 \<le> 0x15"
    using assms(2) by (rule operator_offset)
  then have n: "nat (reg mod 0x20) < 22" by simp
  have eq: "get_channel_from_reg bank reg =
           (if op_ch_map ! nat (reg mod 0x20) = -1 then -1
            else (if bank = 0 then 0 else 9) + op_ch_map ! nat (reg mod 0x20))"
    using assms(2) by (rule operator_channel)
  have mem: "nat (reg mod 0x20) \<in> {6, 7, 14, 15} \<longleftrightarrow> reg mod 0x20 \<in> {0x06, 0x07, 0x0E, 0x0F}"
    using off by auto
  have "get_channel_from_reg bank reg = -1 \<longleftrightarrow> reg mod 0x20 \<in> {0x06, 0x07, 0x0E, 0x0F}"
    using op_ch_map_nth [OF n] unfolding eq mem [symmetric] by auto
  moreover have "get_channel_from_reg bank reg =
           (let table = [0, 1, 2, 0, 1, 2, -1, -1, 3, 4, 5, 3, 4, 5, -1, -1, 6, 7, 8, 6, 7, 8];
                base = (if bank = 0 then 0 else 9);
                offset = nat (reg mod 0x20)
            in if table ! offset = -1 then -1 else base + table ! offset)"
    unfolding eq Let_def op_ch_map_def by (rule refl)
  ultimately show ?thesis using off by blast
qed

theorem classify_operator_registers_witness:
  "get_channel_from_reg 1 0x55 = 17 \<and> get_channel_from_reg 0 0xE6 = -1"
  using classify_operator_registers [of 1 "0x55"] classify_operator_registers [of 0 "0xE6"]
  by simp

text \<open>
  Claim C2. For a bank in \<open>{0, 1}\<close> and a register in \<open>[0xA0, 0xA8]\<close>,
  \<open>[0xB0, 0xB8]\<close> or \<open>[0xC0, 0xC8]\<close>, the classifier returns the base of the bank
  (0 for bank 0, 9 for bank 1) plus the low four bits of the register.
\<close>

theorem classify_channel_registers:
  assumes "bank = 0 \<or> bank = 1"
    and "(0xA0 \<le> reg \<and> reg \<le> 0xA8) \<or> (0xB0 \<le> reg \<and> reg \<le> 0xB8) \<or> (0xC0 \<le> reg \<and> reg \<le> 0xC8)"
  shows "get_channel_from_reg bank reg = (if bank = 0 then 0 else 9) + (reg AND 0x0F)"
  using assms(2) by (simp add: get_channel_from_reg_def)

theorem classify_channel_registers_witness:
  "get_channel_from_reg 1 0xB8 = 9 + 8 \<and> get_channel_from_reg 0 0xC3 = 0 + 3"
  using classify_channel_registers [of 1 "0xB8"] classify_channel_registers [of 0 "0xC3"]
  by simp

text \<open>
  Claim C10. For a bank in \<open>{0, 1}\<close> and any register, a byte in particular, the
  classifier returns the sentinel \<open>-1\<close> or a channel from 0 to 17; with bank 0 the
  channel is from 0 to 8 and with bank 1 from 9 to 17.
\<close>

theorem classify_bounds:
  assumes "bank = 0 \<or> bank = 1"
  shows "(get_channel_from_reg bank reg = -1 \<or>
           (0 \<le> get_channel_from_reg bank reg \<and> get_channel_from_reg bank reg \<le> 17)) \<and>
         (bank = 0 \<longrightarrow> get_channel_from_reg bank reg = -1 \<or>
           (0 \<le> get_channel_from_reg bank reg \<and> get_channel_from_reg bank reg \<le> 8)) \<and>
         (bank = 1 \<longrightarrow> get_channel_from_reg bank reg = -1 \<or>
           (9 \<le> get_channel_from_reg bank reg \<and> get_channel_from_reg bank reg \<le> 17))"
proof -
  let ?base = "if bank = 0 then 0 else (9::int)"
  let ?r = "get_channel_from_reg bank reg"
  have core: "?r = -1 \<or> (?base \<le> ?r \<and> ?r \<le> ?base + 8)"
  proof -
    consider
      (chan) "(0xA0 \<le> reg \<and> reg \<le> 0xA8) \<or> (0xB0 \<le> reg \<and> reg \<le> 0xB8) \<or> (0xC0 \<le> reg \<and> reg \<le> 0xC8)"
    | (oper) "(0x20 \<le> reg \<and> reg \<le> 0x35) \<or> (0x40 \<le> reg \<and> reg \<le> 0x55) \<or>
           (0x60 \<le> reg \<and> reg \<le> 0x75) \<or> (0x80 \<le> reg \<and> reg \<le> 0x95) \<or>
           (0xE0 \<le> reg \<and> reg \<le> 0xF5)"
    | (other) "\<not> ((0xA0 \<le> reg \<and> reg \<le> 0xA8) \<or> (0xB0 \<le> reg \<and> reg \<le> 0xB8) \<or> (0xC0 \<le> reg \<and> reg \<le> 0xC8))"
        "\<not> ((0x20 \<le> reg \<and> reg \<le> 0x35) \<or> (0x40 \<le> reg \<and> reg \<le> 0x55) \<or>
           (0x60 \<le> reg \<and> reg \<le> 0x75) \<or> (0x80 \<le> reg \<and> reg \<le> 0x95) \<or>
           (0xE0 \<le> reg \<and> reg \<le> 0xF5))"
      by blast
    then show ?thesis
    proof cases
      case chan
      then have "?r = ?base + reg mod 16"
        by (simp add: get_channel_from_reg_def and_0F_mod)
      moreover have "0 \<le> reg mod 16 \<and> reg mod 16 \<le> 8"
        using chan by presburger
      ultimately show ?thesis by simp
    next
      case oper
      have n: "nat (reg mod 0x20) < 22"
        using operator_offset [OF oper] by simp
      show ?thesis
        using op_ch_map_nth [OF n] unfolding operator_channel [OF oper] by auto
    next
      case other
      have "?r = -1"
        unfolding get_channel_from_reg_def Let_def
        by (simp only: if_not_P [OF other(1)] if_not_P [OF other(2)])
      then show ?thesis by simp
    qed
  qed
  show ?thesis using core assms by auto
qed

theorem classify_bounds_witness:
  "get_channel_from_reg 0 0x95 = 8 \<and> get_channel_from_reg 1 0xA0 = 9 \<and> get_channel_from_reg 1 0xBD = -1"
  using classify_bounds [of 0 "0x95"] classify_bounds [of 1 "0xA0"] classify_bounds [of 1 "0xBD"]
  by (simp add: get_channel_from_reg_def op_ch_map_def)

section \<open>Reading the header\<close>

declare remove_loop.simps [simp del] isolate_loop.simps [simp del] dump_loop.simps [simp del]
declare block_up.simps [simp del] block_down.simps [simp del]

lemmas header_defs = read_header_def magic_def slice_def unpack_H_def byte_at_def

lemma drop_two:
  assumes "Suc i < length data"
  shows "drop i data = data ! i # data ! Suc i # drop (Suc (Suc i)) data"
proof -
  have "drop i data = data ! i # drop (Suc i) data"
    using assms by (simp add: Cons_nth_drop_Suc)
  also have "drop (Suc i) data = data ! Suc i # drop (Suc (Suc i)) data"
    using assms by (simp add: Cons_nth_drop_Suc)
  finally show ?thesis .
qed

lemma slice_magic: "slice data 0 8 = take 8 data"
  by (simp add: slice_def)

lemma slice_two:
  assumes "Suc i < length data"
  shows "slice data i (i + 2) = [data ! i, data ! Suc i]"
  using drop_two [OF assms] by (simp add: slice_def)

lemma unpack_H_two: "unpack_H [lo, hi] = Inr (uint lo + 256 * uint hi)"
  by (simp add: unpack_H_def)

lemma major_version:
  assumes "10 \<le> length data"
  shows "unpack_H (slice data 8 10) = Inr (uint (data ! 8) + 256 * uint (data ! 9))"
proof -
  have "slice data 8 (8 + 2) = [data ! 8, data ! Suc 8]"
    using assms by (intro slice_two) simp
  then show ?thesis by (simp add: unpack_H_two)
qed

lemma minor_version:
  assumes "12 \<le> length data"
  shows "unpack_H (slice data 10 12) = Inr (uint (data ! 10) + 256 * uint (data ! 11))"
proof -
  have "slice data 10 (10 + 2) = [data ! 10, data ! Suc 10]"
    using assms by (intro slice_two) simp
  then show ?thesis by (simp add: unpack_H_two)
qed

lemma read_header_bad_magic:
  "take 8 data \<noteq> magic \<Longrightarrow> read_header data = Inl BadMagic"
  by (simp add: read_header_def slice_magic)

lemma read_header_version:
  assumes "take 8 data = magic" "10 \<le> length data" "uint (data ! 8) + 256 * uint (data ! 9) \<noteq> 2"
  shows "read_header data = Inl UnsupportedVersion"
  unfolding read_header_def slice_magic major_version [OF assms(2)]
  using assms(1,3) by simp

lemma read_header_parsed:
  assumes "take 8 data = magic" "26 \<le> length data" "uint (data ! 8) + 256 * uint (data ! 9) = 2"
  shows "read_header data = Inr (dro_header data)"
proof -
  have v: "unpack_H (slice data 8 10) = Inr 2"
    using assms(2,3) by (simp add: major_version)
  show ?thesis
    unfolding read_header_def slice_magic v
    using assms(1,2) by (simp add: byte_at_def dro_header_def slice_def)
qed

lemma dump_dro_bad_magic:
  "take 8 data \<noteq> magic \<Longrightarrow> dump_dro data = Inl BadMagic"
  by (simp add: dump_dro_def slice_magic)

lemma dump_dro_version:
  assumes "take 8 data = magic" "12 \<le> length data" "uint (data ! 8) + 256 * uint (data ! 9) \<noteq> 2"
  shows "dump_dro data = Inl UnsupportedVersion"
proof -
  have v: "unpack_H (slice data 8 10) = Inr (uint (data ! 8) + 256 * uint (data ! 9))"
    using assms(2) by (simp add: major_version)
  show ?thesis
    unfolding dump_dro_def slice_magic v minor_version [OF assms(2)]
    using assms(1,3) by simp
qed

lemma dump_loop_end:
  "length data \<le> i \<Longrightarrow> dump_loop data sd ld cm i t rows = (rows, t)"
  by (subst dump_loop.simps) simp

lemma dump_dro_parsed:
  assumes "take 8 data = magic" "26 \<le> length data" "uint (data ! 8) + 256 * uint (data ! 9) = 2"
  shows "dump_dro data =
           Inr (dump_loop data (short_delay_code (dro_header data)) (long_delay_code (dro_header data))
                  (codemap (dro_header data)) (stream_start (dro_header data)) 0 [])"
proof -
  have v: "unpack_H (slice data 8 10) = Inr 2"
    using assms(2,3) by (simp add: major_version)
  have w: "unpack_H (slice data 10 12) = Inr (uint (data ! 10) + 256 * uint (data ! 11))"
    using assms(2) by (simp add: minor_version)
  show ?thesis
    unfolding dump_dro_def slice_magic v w
    using assms(1,2) by (simp add: byte_at_def dro_header_def slice_def)
qed

section \<open>The filters as token filters\<close>

lemma token_bytes_stream_tokens:
  "even (length xs) \<Longrightarrow> token_bytes (stream_tokens xs) = xs"
  by (induction xs rule: stream_tokens.induct) (simp_all add: token_bytes_def)

lemma token_bytes_Cons: "token_bytes ((c, v) # ts) = c # v # token_bytes ts"
  by (simp add: token_bytes_def)

lemma token_bytes_Nil: "token_bytes [] = []"
  by (simp add: token_bytes_def)

lemma even_rest:
  assumes "i \<le> length data" "even (length data - i)" "i < length data"
  shows "Suc i < length data" "Suc (Suc i) \<le> length data" "even (length data - Suc (Suc i))"
proof -
  have "length data - i \<noteq> 1"
  proof
    assume "length data - i = 1"
    then have "odd (length data - i)" by simp
    with assms(2) show False by simp
  qed
  with assms(3) show "Suc i < length data" by arith
  then have le: "Suc (Suc i) \<le> length data" by simp
  then show "Suc (Suc i) \<le> length data" .
  from le have "length data - i = Suc (Suc (length data - Suc (Suc i)))" by arith
  with assms(2) show "even (length data - Suc (Suc i))" by simp
qed

lemma remove_loop_end:
  "length data \<le> i \<Longrightarrow> remove_loop data h c i out d = Inr (out, d)"
  by (subst remove_loop.simps) simp

lemma remove_loop_step:
  assumes "Suc i < length data"
  shows "remove_loop data h c i out d =
           (if remove_drops_spec h c (data ! i, data ! Suc i)
            then remove_loop data h c (Suc (Suc i)) out (d + 1)
            else remove_loop data h c (Suc (Suc i)) (out @ [data ! i, data ! Suc i]) d)"
  using assms
  by (subst remove_loop.simps)
     (simp add: byte_at_def Let_def remove_drops_spec_def resolved_write_def is_delay_def
        token_channel_def token_bank_def codemap_index_def resolved_register_def)

lemma remove_loop_tokens:
  "i \<le> length data \<Longrightarrow> even (length data - i) \<Longrightarrow>
   remove_loop data h c i out d =
     Inr (out @ token_bytes (filter (\<lambda>t. \<not> remove_drops_spec h c t) (stream_tokens (drop i data))),
          d + length (filter (remove_drops_spec h c) (stream_tokens (drop i data))))"
proof (induction "length data - i" arbitrary: i out d rule: less_induct)
  case less
  show ?case
  proof (cases "i < length data")
    case False
    then show ?thesis
      by (simp add: remove_loop_end token_bytes_Nil)
  next
    case True
    note rest = even_rest [OF less.prems True]
    have dr: "drop i data = data ! i # data ! Suc i # drop (Suc (Suc i)) data"
      using rest(1) by (rule drop_two)
    have smaller: "length data - (Suc (Suc i)) < length data - i"
      using True by arith
    show ?thesis
      unfolding remove_loop_step [OF rest(1)] dr
      by (simp add: less.hyps [OF smaller rest(2) rest(3)] token_bytes_Cons)
  qed
qed

lemma isolate_loop_end:
  "length data \<le> i \<Longrightarrow> isolate_loop data h c i out d = Inr (out, d)"
  by (subst isolate_loop.simps) simp

lemma isolate_loop_step:
  assumes "Suc i < length data"
  shows "isolate_loop data h c i out d =
           (if isolate_keeps_spec h c (data ! i, data ! Suc i)
            then isolate_loop data h c (Suc (Suc i)) (out @ [data ! i, data ! Suc i]) d
            else isolate_loop data h c (Suc (Suc i)) out (d + 1))"
  using assms
  by (subst isolate_loop.simps)
     (simp add: byte_at_def Let_def isolate_keeps_spec_def resolved_write_def is_delay_def
        token_channel_def token_bank_def codemap_index_def resolved_register_def)

lemma isolate_loop_tokens:
  "i \<le> length data \<Longrightarrow> even (length data - i) \<Longrightarrow>
   isolate_loop data h c i out d =
     Inr (out @ token_bytes (filter (isolate_keeps_spec h c) (stream_tokens (drop i data))),
          d + length (filter (\<lambda>t. \<not> isolate_keeps_spec h c t) (stream_tokens (drop i data))))"
proof (induction "length data - i" arbitrary: i out d rule: less_induct)
  case less
  show ?case
  proof (cases "i < length data")
    case False
    then show ?thesis
      by (simp add: isolate_loop_end token_bytes_Nil)
  next
    case True
    note rest = even_rest [OF less.prems True]
    have dr: "drop i data = data ! i # data ! Suc i # drop (Suc (Suc i)) data"
      using rest(1) by (rule drop_two)
    have smaller: "length data - (Suc (Suc i)) < length data - i"
      using True by arith
    show ?thesis
      unfolding isolate_loop_step [OF rest(1)] dr
      by (simp add: less.hyps [OF smaller rest(2) rest(3)] token_bytes_Cons)
  qed
qed

lemma read_header_valid:
  assumes "valid_dro data"
  shows "read_header data = Inr (dro_header data)"
  using assms by (intro read_header_parsed) (simp_all add: valid_dro_def)

lemma remove_channel_tokens:
  assumes "valid_dro data"
  shows "remove_channel data c =
           Inr (take (stream_start (dro_header data)) data @
                token_bytes (filter (\<lambda>t. \<not> remove_drops_spec (dro_header data) c t)
                  (stream_tokens (drop (stream_start (dro_header data)) data))),
                length (filter (remove_drops_spec (dro_header data) c)
                  (stream_tokens (drop (stream_start (dro_header data)) data))))"
proof -
  from assms have "stream_start (dro_header data) \<le> length data"
    and "even (length data - stream_start (dro_header data))"
    by (auto simp add: valid_dro_def dro_header_def)
  then show ?thesis
    by (simp add: remove_channel_def read_header_valid [OF assms] remove_loop_tokens)
qed

lemma isolate_channel_tokens:
  assumes "valid_dro data"
  shows "isolate_channel data c =
           Inr (take (stream_start (dro_header data)) data @
                token_bytes (filter (isolate_keeps_spec (dro_header data) c)
                  (stream_tokens (drop (stream_start (dro_header data)) data))),
                length (filter (\<lambda>t. \<not> isolate_keeps_spec (dro_header data) c t)
                  (stream_tokens (drop (stream_start (dro_header data)) data))))"
proof -
  from assms have "stream_start (dro_header data) \<le> length data"
    and "even (length data - stream_start (dro_header data))"
    by (auto simp add: valid_dro_def dro_header_def)
  then show ?thesis
    by (simp add: isolate_channel_def read_header_valid [OF assms] isolate_loop_tokens)
qed

lemma sample_valid: "valid_dro sample_file"
  by (simp add: valid_dro_def sample_file_def magic_def)

lemmas token_defs = token_bytes_def remove_drops_spec_def isolate_keeps_spec_def resolved_write_def is_delay_def
  token_channel_def token_bank_def codemap_index_def resolved_register_def

lemma sample_header:
  "dro_header sample_file =
     \<lparr> short_delay_code = 0x7E, long_delay_code = 0x7F, codemap = [0xB0, 0xBD, 0x43], stream_start = 29 \<rparr>"
  by (simp add: dro_header_def sample_file_def magic_def)

lemma sample_tokens:
  "stream_tokens (drop 29 sample_file) =
     [(0x00, 0x30), (0x7E, 9), (0x81, 0x20), (0x82, 0x11), (0x05, 0x01), (0x7F, 0x00), (0x02, 0x3F)]"
  by (simp add: sample_file_def magic_def)

lemma sample_start: "stream_start (dro_header sample_file) = 29"
  by (simp add: sample_header)

lemma sample_remove_0:
  "filter (remove_drops_spec (dro_header sample_file) 0) (stream_tokens (drop 29 sample_file)) =
     [(0x00, 0x30), (0x02, 0x3F)]"
  "filter (\<lambda>t. \<not> remove_drops_spec (dro_header sample_file) 0 t) (stream_tokens (drop 29 sample_file)) =
     [(0x7E, 9), (0x81, 0x20), (0x82, 0x11), (0x05, 0x01), (0x7F, 0x00)]"
  unfolding sample_header sample_tokens
  by (simp_all add: token_defs get_channel_from_reg_def op_ch_map_def)

lemma sample_isolate_0:
  "filter (isolate_keeps_spec (dro_header sample_file) 0) (stream_tokens (drop 29 sample_file)) =
     [(0x00, 0x30), (0x7E, 9), (0x81, 0x20), (0x05, 0x01), (0x7F, 0x00), (0x02, 0x3F)]"
  "filter (\<lambda>t. \<not> isolate_keeps_spec (dro_header sample_file) 0 t) (stream_tokens (drop 29 sample_file)) =
     [(0x82, 0x11)]"
  unfolding sample_header sample_tokens
  by (simp_all add: token_defs get_channel_from_reg_def op_ch_map_def)

lemma sample_no_channel_5:
  "\<forall>t \<in> set (stream_tokens (drop (stream_start (dro_header sample_file)) sample_file)).
     \<not> (resolved_write (dro_header sample_file) t \<and> token_channel (dro_header sample_file) t = 5)"
  unfolding sample_start sample_tokens unfolding sample_header
  by (simp add: token_defs get_channel_from_reg_def op_ch_map_def)

section \<open>Remove\<close>

text \<open>
  Claim C3. On a valid DRO v2 file and for any target channel \<open>c\<close>, \<open>remove_channel\<close>
  reads the header, copies header and codemap, and writes the tokens of the stream in
  order except those that Remove drops; the number reported is the number of dropped
  tokens. No delay token is dropped, no register write with an index at or past the
  end of the codemap is dropped, and a register write with an index inside the codemap
  is dropped if and only if its channel is \<open>c\<close>.
\<close>

theorem remove_channel_complementarity:
  assumes "valid_dro data"
  shows "let h = dro_header data; tokens = stream_tokens (drop (stream_start h) data) in
           read_header data = Inr h \<and>
           remove_channel data c =
             Inr (take (stream_start h) data @ token_bytes (filter (\<lambda>t. \<not> remove_drops_spec h c t) tokens),
                  length (filter (remove_drops_spec h c) tokens)) \<and>
           (\<forall>t \<in> set tokens. is_delay h t \<longrightarrow> \<not> remove_drops_spec h c t) \<and>
           (\<forall>t \<in> set tokens. \<not> is_delay h t \<and> int (length (codemap h)) \<le> codemap_index t \<longrightarrow>
                \<not> remove_drops_spec h c t) \<and>
           (\<forall>t \<in> set tokens. \<not> is_delay h t \<and> codemap_index t < int (length (codemap h)) \<longrightarrow>
                (remove_drops_spec h c t \<longleftrightarrow> token_channel h t = c))"
  unfolding Let_def
  using read_header_valid [OF assms] remove_channel_tokens [OF assms]
  by (simp add: remove_drops_spec_def resolved_write_def)

theorem remove_channel_complementarity_witness:
  "valid_dro sample_file \<and>
   remove_channel sample_file 0 =
     Inr (take 29 sample_file @ [0x7E, 9, 0x81, 0x20, 0x82, 0x11, 0x05, 0x01, 0x7F, 0x00], 2)"
proof -
  have "remove_channel sample_file 0 =
          Inr (take 29 sample_file @
               token_bytes (filter (\<lambda>t. \<not> remove_drops_spec (dro_header sample_file) 0 t)
                 (stream_tokens (drop 29 sample_file))),
               length (filter (remove_drops_spec (dro_header sample_file) 0)
                 (stream_tokens (drop 29 sample_file))))"
    using remove_channel_complementarity [OF sample_valid, of 0]
    unfolding Let_def sample_start by (rule conjunct1 [OF conjunct2])
  then show ?thesis
    unfolding sample_remove_0 using sample_valid by (simp add: token_bytes_def)
qed

text \<open>
  Claim C6. On a valid DRO v2 file whose stream has no register write classified to
  the channel \<open>c\<close>, \<open>remove_channel\<close> writes the input unchanged, byte for byte, and
  drops nothing.
\<close>

theorem remove_unmatched_identity:
  assumes "valid_dro data"
    and "\<forall>t \<in> set (stream_tokens (drop (stream_start (dro_header data)) data)).
           \<not> (resolved_write (dro_header data) t \<and> token_channel (dro_header data) t = c)"
  shows "remove_channel data c = Inr (data, 0)"
proof -
  let ?h = "dro_header data"
  let ?ts = "stream_tokens (drop (stream_start ?h) data)"
  have keep: "filter (\<lambda>t. \<not> remove_drops_spec ?h c t) ?ts = ?ts"
    using assms(2) by (simp add: remove_drops_spec_def)
  have drop: "filter (remove_drops_spec ?h c) ?ts = []"
    using assms(2) by (simp add: remove_drops_spec_def)
  have "even (length (drop (stream_start ?h) data))"
    using assms(1) by (auto simp add: valid_dro_def dro_header_def)
  then have "token_bytes ?ts = drop (stream_start ?h) data"
    by (rule token_bytes_stream_tokens)
  then show ?thesis
    unfolding remove_channel_tokens [OF assms(1)] keep drop by simp
qed

theorem remove_unmatched_identity_witness:
  "valid_dro sample_file \<and> remove_channel sample_file 5 = Inr (sample_file, 0)"
  using remove_unmatched_identity [OF sample_valid sample_no_channel_5] sample_valid
  by (rule conjI [rotated])

section \<open>Isolate\<close>

text \<open>
  Claim C4. The classifier gives \<open>-1\<close> (Global) for register \<open>0xBD\<close> in both banks. On
  a valid DRO v2 file and for any target channel \<open>c\<close>, \<open>isolate_channel\<close> writes header
  and codemap and then the tokens that Isolate keeps, and reports the number of the
  others; every resolved write to register \<open>0xBD\<close> is kept, and a resolved write is
  kept if and only if its register is \<open>0xBD\<close>, or its channel is \<open>c\<close>, or its channel
  is \<open>-1\<close>.
\<close>

theorem isolate_keeps_rhythm_target_global:
  assumes "valid_dro data"
  shows "get_channel_from_reg 0 0xBD = -1 \<and> get_channel_from_reg 1 0xBD = -1 \<and>
         (let h = dro_header data; tokens = stream_tokens (drop (stream_start h) data) in
            read_header data = Inr h \<and>
            isolate_channel data c =
              Inr (take (stream_start h) data @ token_bytes (filter (isolate_keeps_spec h c) tokens),
                   length (filter (\<lambda>t. \<not> isolate_keeps_spec h c t) tokens)) \<and>
            (\<forall>t \<in> set tokens. resolved_write h t \<and> resolved_register h t = 0xBD \<longrightarrow>
                 isolate_keeps_spec h c t) \<and>
            (\<forall>t \<in> set tokens. resolved_write h t \<longrightarrow>
                 (isolate_keeps_spec h c t \<longleftrightarrow>
                    resolved_register h t = 0xBD \<or> token_channel h t = c \<or> token_channel h t = -1)))"
proof -
  have "get_channel_from_reg 0 0xBD = -1" "get_channel_from_reg 1 0xBD = -1"
    by (simp_all add: get_channel_from_reg_def)
  then show ?thesis
    unfolding Let_def
    using read_header_valid [OF assms] isolate_channel_tokens [OF assms]
    by (simp add: isolate_keeps_spec_def)
qed

theorem isolate_keeps_rhythm_target_global_witness:
  "valid_dro sample_file \<and>
   isolate_channel sample_file 0 =
     Inr (take 29 sample_file @ [0x00, 0x30, 0x7E, 9, 0x81, 0x20, 0x05, 0x01, 0x7F, 0x00, 0x02, 0x3F], 1)"
proof -
  have "isolate_channel sample_file 0 =
          Inr (take 29 sample_file @
               token_bytes (filter (isolate_keeps_spec (dro_header sample_file) 0)
                 (stream_tokens (drop 29 sample_file))),
               length (filter (\<lambda>t. \<not> isolate_keeps_spec (dro_header sample_file) 0 t)
                 (stream_tokens (drop 29 sample_file))))"
    using isolate_keeps_rhythm_target_global [OF sample_valid, of 0]
    unfolding Let_def sample_start by (rule conjunct1 [OF conjunct2 [OF conjunct2 [OF conjunct2]]])
  then show ?thesis
    unfolding sample_isolate_0 using sample_valid by (simp add: token_bytes_def)
qed

section \<open>A lone trailing byte\<close>

lemma remove_loop_lone_byte:
  assumes "length data = Suc i"
  shows "remove_loop data h c i out d = Inl IndexError"
  using assms by (subst remove_loop.simps) (simp add: byte_at_def Let_def)

lemma isolate_loop_lone_byte:
  assumes "length data = Suc i"
  shows "isolate_loop data h c i out d = Inl IndexError"
  using assms by (subst isolate_loop.simps) (simp add: byte_at_def Let_def)

lemma remove_loop_odd:
  "i \<le> length data \<Longrightarrow> odd (length data - i) \<Longrightarrow>
   remove_loop data h c i out d = Inl IndexError"
proof (induction "length data - i" arbitrary: i out d rule: less_induct)
  case less
  show ?case
  proof (cases "length data = Suc i")
    case True
    then show ?thesis by (rule remove_loop_lone_byte)
  next
    case False
    with less.prems have lt: "Suc i < length data"
      by (cases "length data = i") (simp_all add: le_less Suc_lessI)
    then have le: "Suc (Suc i) \<le> length data" by simp
    then have "length data - i = Suc (Suc (length data - Suc (Suc i)))" by arith
    with less.prems(2) have odd: "odd (length data - Suc (Suc i))" by simp
    have smaller: "length data - Suc (Suc i) < length data - i"
      using lt by arith
    show ?thesis
      unfolding remove_loop_step [OF lt]
      by (simp add: less.hyps [OF smaller le odd])
  qed
qed

lemma isolate_loop_odd:
  "i \<le> length data \<Longrightarrow> odd (length data - i) \<Longrightarrow>
   isolate_loop data h c i out d = Inl IndexError"
proof (induction "length data - i" arbitrary: i out d rule: less_induct)
  case less
  show ?case
  proof (cases "length data = Suc i")
    case True
    then show ?thesis by (rule isolate_loop_lone_byte)
  next
    case False
    with less.prems have lt: "Suc i < length data"
      by (cases "length data = i") (simp_all add: le_less Suc_lessI)
    then have le: "Suc (Suc i) \<le> length data" by simp
    then have "length data - i = Suc (Suc (length data - Suc (Suc i)))" by arith
    with less.prems(2) have odd: "odd (length data - Suc (Suc i))" by simp
    have smaller: "length data - Suc (Suc i) < length data - i"
      using lt by arith
    show ?thesis
      unfolding isolate_loop_step [OF lt]
      by (simp add: less.hyps [OF smaller le odd])
  qed
qed

text \<open>
  Claim C5. The file \<open>lone_byte_file\<close> has a valid header, an empty codemap and a
  stream of one byte. The Dumper stops at the lone byte and returns normally, with no
  row and time 0. \<open>remove_channel\<close> and \<open>isolate_channel\<close> read the missing second
  byte and end with \<open>IndexError\<close>, writing nothing; by \<open>remove_loop_odd\<close> and
  \<open>isolate_loop_odd\<close> they do so on every stream of odd length.
\<close>

theorem lone_trailing_byte:
  "remove_channel lone_byte_file 0 = Inl IndexError \<and>
   isolate_channel lone_byte_file 0 = Inl IndexError \<and>
   dump_dro lone_byte_file = Inr ([], 0)"
  by (simp add: remove_channel_def isolate_channel_def dump_dro_def lone_byte_file_def header_defs
        remove_loop.simps isolate_loop.simps dump_loop.simps)

section \<open>Header failures\<close>

text \<open>
  Against claim C8 as stated: \<open>short_codemap_file\<close> is 26 bytes long and announces a
  codemap of five bytes, so it is shorter than its codemap-end offset 31; it is not
  rejected. \<open>remove_channel\<close> writes it out unchanged and the Dumper returns normally.
\<close>

theorem truncated_counterexample:
  "remove_channel short_codemap_file 0 = Inr (short_codemap_file, 0) \<and>
   dump_dro short_codemap_file = Inr ([], 0)"
  by (simp add: remove_channel_def dump_dro_def short_codemap_file_def header_defs
        remove_loop.simps dump_loop.simps)

text \<open>
  Claim C8, amended. A buffer whose first eight bytes are not the magic tag gives
  \<open>BadMagic\<close> in all three operations. With the magic tag, at least ten bytes and a
  little-endian major version at offset 8 other than 2, the filters give
  \<open>UnsupportedVersion\<close>, and so does the Dumper when the buffer has at least twelve
  bytes (it unpacks the minor version first). In these cases nothing is produced.
  There is no check of the buffer against the codemap-end offset: a buffer of at least
  26 bytes with magic tag and version 2 that is shorter than \<open>26 + codemap length\<close> is
  accepted, its stream is empty, the filters write the input unchanged with nothing
  dropped, and the Dumper prints no row.
\<close>

theorem header_failures:
  "(take 8 data \<noteq> magic \<longrightarrow>
      remove_channel data c = Inl BadMagic \<and> isolate_channel data c = Inl BadMagic \<and>
      dump_dro data = Inl BadMagic) \<and>
   (take 8 data = magic \<and> 10 \<le> length data \<and> uint (data ! 8) + 256 * uint (data ! 9) \<noteq> 2 \<longrightarrow>
      remove_channel data c = Inl UnsupportedVersion \<and>
      isolate_channel data c = Inl UnsupportedVersion \<and>
      (12 \<le> length data \<longrightarrow> dump_dro data = Inl UnsupportedVersion)) \<and>
   (take 8 data = magic \<and> uint (data ! 8) + 256 * uint (data ! 9) = 2 \<and>
    26 \<le> length data \<and> length data < 26 + unat (data ! 25) \<longrightarrow>
      remove_channel data c = Inr (data, 0) \<and> isolate_channel data c = Inr (data, 0) \<and>
      dump_dro data = Inr ([], 0))"
proof (intro conjI impI)
  assume "take 8 data \<noteq> magic"
  then show "remove_channel data c = Inl BadMagic" "isolate_channel data c = Inl BadMagic"
    "dump_dro data = Inl BadMagic"
    by (simp_all add: remove_channel_def isolate_channel_def read_header_bad_magic dump_dro_bad_magic)
next
  assume a: "take 8 data = magic \<and> 10 \<le> length data \<and> uint (data ! 8) + 256 * uint (data ! 9) \<noteq> 2"
  then have "read_header data = Inl UnsupportedVersion"
    by (simp add: read_header_version)
  then show "remove_channel data c = Inl UnsupportedVersion"
    "isolate_channel data c = Inl UnsupportedVersion"
    by (simp_all add: remove_channel_def isolate_channel_def)
  assume "12 \<le> length data"
  with a show "dump_dro data = Inl UnsupportedVersion"
    by (simp add: dump_dro_version)
next
  assume a: "take 8 data = magic \<and> uint (data ! 8) + 256 * uint (data ! 9) = 2 \<and>
    26 \<le> length data \<and> length data < 26 + unat (data ! 25)"
  then have h: "read_header data = Inr (dro_header data)"
    by (simp add: read_header_parsed)
  from a have past: "length data \<le> stream_start (dro_header data)"
    by (simp add: dro_header_def)
  show "remove_channel data c = Inr (data, 0)"
    using past by (simp add: remove_channel_def h remove_loop_end)
  show "isolate_channel data c = Inr (data, 0)"
    using past by (simp add: isolate_channel_def h isolate_loop_end)
  show "dump_dro data = Inr ([], 0)"
    using a past by (simp add: dump_dro_parsed dump_loop_end)
qed

theorem header_failures_witness:
  "remove_channel wrong_magic_file 0 = Inl BadMagic \<and> dump_dro wrong_magic_file = Inl BadMagic \<and>
   remove_channel version_1_file 0 = Inl UnsupportedVersion \<and>
   dump_dro version_1_file = Inl UnsupportedVersion \<and>
   isolate_channel short_codemap_file 0 = Inr (short_codemap_file, 0)"
  using header_failures [of wrong_magic_file 0] header_failures [of version_1_file 0]
    header_failures [of short_codemap_file 0]
  by (simp add: wrong_magic_file_def version_1_file_def short_codemap_file_def magic_def)

section \<open>The Dumper on the concrete scenario\<close>

text \<open>
  Against claim C9 as stated: in the file of the scenario the first token has the code
  \<open>0x00\<close>, which is the short-delay opcode of that file, and delay opcodes are tested
  first. The Dumper prints no row and ends with accumulated time \<open>(0x30 + 1) + (9 + 1)\<close>.
\<close>

theorem dump_scenario_counterexample:
  "dump_dro (scenario_file 0x00 0x01 0x00) = Inr ([], 59)"
  by (simp add: dump_dro_def scenario_file_def header_defs dump_loop.simps)

text \<open>
  Claim C9, amended. On the file of the scenario the Dumper prints no row and the
  accumulated time ends at 59. When the two delay opcodes are not \<open>0x00\<close>, and the delay
  token carries the short-delay opcode, the Dumper prints one row for the write token,
  with offset 27, accumulated time 0, bank 0, register \<open>0xB0\<close>, value \<open>0x30\<close> and a
  description that ends in \<open>NOTE START\<close>, and the delay token at offset 29 then takes
  the accumulated time from 0 to 10.
\<close>

theorem dump_scenario:
  "dump_dro (scenario_file 0x00 0x01 0x00) = Inr ([], 49 + 10) \<and>
   (sd \<noteq> 0 \<and> ld \<noteq> 0 \<longrightarrow>
      dump_dro (scenario_file sd ld sd) =
        Inr ([Row 27 0 0 0xB0 0x30 ''CH 0 | KeyOn: True | Blk: 4 | F-Hi: 0 <--- NOTE START''], 10) \<and>
      dump_loop (scenario_file sd ld sd) (uint sd) (uint ld) [0xB0] 29 0 [] = ([], 10))"
proof (intro conjI impI)
  show "dump_dro (scenario_file 0x00 0x01 0x00) = Inr ([], 49 + 10)"
    by (simp add: dump_dro_def scenario_file_def header_defs dump_loop.simps)
next
  assume "sd \<noteq> 0 \<and> ld \<noteq> 0"
  then have nz: "uint sd \<noteq> 0" "uint ld \<noteq> 0" "0 \<noteq> uint sd" "0 \<noteq> uint ld"
    by (simp_all add: uint_0_iff)
  show "dump_dro (scenario_file sd ld sd) =
        Inr ([Row 27 0 0 0xB0 0x30 ''CH 0 | KeyOn: True | Blk: 4 | F-Hi: 0 <--- NOTE START''], 10)"
    using nz
    by (simp add: dump_dro_def scenario_file_def header_defs describe_def str_int_def str_bool_def
          dump_loop.simps)
  show "dump_loop (scenario_file sd ld sd) (uint sd) (uint ld) [0xB0] 29 0 [] = ([], 10)"
    by (simp add: scenario_file_def magic_def dump_loop.simps)
qed

theorem dump_scenario_witness:
  "dump_dro (scenario_file 0x02 0x01 0x02) =
        Inr ([Row 27 0 0 0xB0 0x30 ''CH 0 | KeyOn: True | Blk: 4 | F-Hi: 0 <--- NOTE START''], 10)"
  using dump_scenario [of 2 1] by simp

section \<open>Pitch shift by zero semitones\<close>

lemma py_int_of_int: "py_int (real_of_int k) = k"
  by (simp add: py_int_def)

lemma and_03_mod: "(x::int) AND 0x03 = x mod 4"
  using and_mask_mod [of x 2] by (simp add: mask_eq_exp_minus_1)

lemma and_07_mod: "(x::int) AND 0x07 = x mod 8"
  using and_mask_mod [of x 3] by (simp add: mask_eq_exp_minus_1)

lemma and_3F_mod: "(x::int) AND 0x3F = x mod 64"
  using and_mask_mod [of x 6] by (simp add: mask_eq_exp_minus_1)

lemma and_FF_mod: "(x::int) AND 0xFF = x mod 256"
  using and_mask_mod [of x 8] by (simp add: mask_eq_exp_minus_1)

lemma block_bits: "drop_bit 2 ((b::int) AND 0x1C) = (b div 4) mod 8"
proof -
  have "drop_bit 2 (b AND 0x1C) = drop_bit 2 b AND drop_bit 2 0x1C"
    by (rule drop_bit_and)
  also have "drop_bit 2 (0x1C::int) = 0x07"
    by (simp add: drop_bit_eq_div)
  finally show ?thesis
    by (simp add: and_07_mod drop_bit_eq_div)
qed

lemma f_num_bits:
  assumes "0 \<le> a" "a < 256"
  shows "push_bit 8 h OR a = 256 * h + (a::int)"
proof -
  have "take_bit 8 a = a"
    using assms by (simp add: take_bit_int_eq_self)
  then have "push_bit 8 h OR a = concat_bit 8 a h"
    by (simp add: concat_bit_def or.commute)
  also have "\<dots> = take_bit 8 a + push_bit 8 h"
    by (rule concat_bit_eq)
  finally show ?thesis
    using \<open>take_bit 8 a = a\<close> by (simp add: push_bit_eq_mult)
qed

lemma block_field: "push_bit 2 (drop_bit 2 ((b::int) AND 0x1C)) = b AND 0x1C"
proof -
  have "take_bit 2 (b AND 0x1C) = take_bit 2 b AND take_bit 2 0x1C"
    by (rule take_bit_and)
  also have "take_bit 2 (0x1C::int) = 0"
    by (simp add: take_bit_eq_mod)
  finally have "take_bit 2 (b AND 0x1C) = 0" by simp
  with bits_ident [of 2 "b AND 0x1C"] show ?thesis by simp
qed

lemma repack_same:
  "((b::int) AND 0x20) OR push_bit 2 (drop_bit 2 (b AND 0x1C)) OR (b AND 0x03) = b mod 64"
proof -
  have "(b AND 0x20) OR push_bit 2 (drop_bit 2 (b AND 0x1C)) OR (b AND 0x03) =
        (b AND 0x20) OR (b AND 0x1C) OR (b AND 0x03)"
    by (simp only: block_field)
  also have "\<dots> = b AND (0x20 OR 0x1C OR 0x03)"
    by (simp only: bit.conj_disj_distrib)
  also have "(0x20 OR 0x1C OR 0x03) = (0x3F::int)" by simp
  also have "b AND 0x3F = b mod 64" by (rule and_3F_mod)
  finally show ?thesis .
qed

lemma repack_block:
  assumes "0 \<le> k" "k \<le> 7"
  shows "drop_bit 2 ((((b::int) AND 0x20) OR push_bit 2 k OR (x AND 0x03)) AND 0x1C) = k"
proof -
  have 1: "(b AND 0x20) AND 0x1C = 0"
    by (simp add: and.assoc)
  have 2: "(x AND 0x03) AND 0x1C = 0"
    by (simp add: and.assoc)
  have "((b AND 0x20) OR push_bit 2 k OR (x AND 0x03)) AND 0x1C = push_bit 2 k AND 0x1C"
    by (simp add: bit.conj_disj_distrib2 1 2)
  also have "drop_bit 2 (push_bit 2 k AND 0x1C) = drop_bit 2 (push_bit 2 k) AND drop_bit 2 0x1C"
    by (rule drop_bit_and)
  also have "drop_bit 2 (0x1C::int) = 0x07"
    by (simp add: drop_bit_eq_div)
  also have "drop_bit 2 (push_bit 2 k) = k"
    by (simp add: drop_bit_push_bit)
  finally show ?thesis
    using assms by (simp add: and_07_mod)
qed

lemma block_up_stays: "new_f_num < 1024 \<Longrightarrow> block_up new_f_num new_block = (new_f_num, new_block)"
  by (subst block_up.simps) simp

lemma block_down_stays:
  assumes "\<not> (new_f_num < 512 \<and> new_block > 0)"
  shows "block_down new_f_num new_block = (new_f_num, new_block)"
  by (subst block_down.simps) (simp only: assms if_False)

lemma block_down_block:
  "0 \<le> k \<Longrightarrow> 0 \<le> snd (block_down f k) \<and> snd (block_down f k) \<le> k"
proof (induction f k rule: block_down.induct)
  case (1 f k)
  show ?case
  proof (cases "f < 512 \<and> k > 0")
    case True
    then have "block_down f k = block_down (f * 2) (k - 1)"
      by (subst block_down.simps) simp
    moreover have "0 \<le> snd (block_down (f * 2) (k - 1)) \<and> snd (block_down (f * 2) (k - 1)) \<le> k - 1"
      using True by (intro "1.IH") simp_all
    ultimately show ?thesis by simp
  next
    case False
    then show ?thesis using "1.prems" by (simp add: block_down_stays)
  qed
qed

lemma block_down_lowers:
  assumes "f < 512" "0 < k"
  shows "0 \<le> snd (block_down f k) \<and> snd (block_down f k) < k"
proof -
  have "block_down f k = block_down (f * 2) (k - 1)"
    using assms by (subst block_down.simps) simp
  moreover have "0 \<le> snd (block_down (f * 2) (k - 1)) \<and> snd (block_down (f * 2) (k - 1)) \<le> k - 1"
    using assms by (intro block_down_block) simp
  ultimately show ?thesis by simp
qed

lemma calc_shift_zero_unfold:
  "calc_shift hex_a0 hex_b0 0 =
     (let block = drop_bit 2 (hex_b0 AND 0x1C);
          current_f_num = push_bit 8 (hex_b0 AND 0x03) OR hex_a0;
          up = block_up current_f_num block;
          down = block_down (fst up) (snd up)
      in (fst down AND 0xFF,
          (hex_b0 AND 0x20) OR push_bit 2 (snd down) OR (drop_bit 8 (fst down) AND 0x03)))"
  by (simp add: calc_shift_def Let_def py_int_of_int split_beta)

text \<open>
  Against claim C7 as stated: the bytes \<open>(0xE2, 0x31)\<close> hold the frequency number 482
  in block 4; the second loop doubles it to 964 and lowers the block to 3, so the
  result is \<open>(0xC4, 0x2F)\<close>.
\<close>

theorem calc_shift_zero_counterexample:
  "calc_shift 0xE2 0x31 0 = (0xC4, 0x2F) \<and> calc_shift 0xE2 0x31 0 \<noteq> (0xE2, 0x31)"
  by (simp add: calc_shift_def py_int_def block_up.simps block_down.simps)

text \<open>
  Claim C7, amended. For input bytes \<open>hex_a0\<close> and \<open>hex_b0\<close>, \<open>calc_shift\<close> with zero
  semitones returns the pair unchanged if and only if bits 6 and 7 of \<open>hex_b0\<close> are
  clear and the pair is already normalised: the frequency number is at least 512 or
  the block is 0.
\<close>

theorem calc_shift_zero:
  assumes "0 \<le> hex_a0" "hex_a0 \<le> 255" "0 \<le> hex_b0" "hex_b0 \<le> 255"
  shows "calc_shift hex_a0 hex_b0 0 = (hex_a0, hex_b0) \<longleftrightarrow>
           hex_b0 < 0x40 \<and>
           (512 \<le> push_bit 8 (hex_b0 AND 0x03) OR hex_a0 \<or> drop_bit 2 (hex_b0 AND 0x1C) = 0)"
proof -
  define block where "block = drop_bit 2 (hex_b0 AND 0x1C)"
  define f_high where "f_high = hex_b0 AND 0x03"
  define f_num where "f_num = push_bit 8 f_high OR hex_a0"
  have fh: "0 \<le> f_high" "f_high \<le> 3"
    by (simp_all add: f_high_def and_03_mod)
  have blk: "0 \<le> block" "block \<le> 7"
    by (simp_all add: block_def block_bits)
  have f: "f_num = 256 * f_high + hex_a0"
    unfolding f_num_def using assms by (intro f_num_bits) simp_all
  have f_range: "0 \<le> f_num" "f_num < 1024"
    using fh assms unfolding f by simp_all
  have up: "block_up f_num block = (f_num, block)"
    using f_range by (simp add: block_up_stays)
  have result: "calc_shift hex_a0 hex_b0 0 =
      (fst (block_down f_num block) AND 0xFF,
       (hex_b0 AND 0x20) OR push_bit 2 (snd (block_down f_num block)) OR
         (drop_bit 8 (fst (block_down f_num block)) AND 0x03))"
    unfolding calc_shift_zero_unfold Let_def
    unfolding block_def [symmetric] f_high_def [symmetric] f_num_def [symmetric] up
    by simp
  show ?thesis
  proof (cases "f_num < 512 \<and> 0 < block")
    case True
    let ?k = "snd (block_down f_num block)"
    have k: "0 \<le> ?k" "?k < block"
      using block_down_lowers [of f_num block] True by simp_all
    have "snd (calc_shift hex_a0 hex_b0 0) \<noteq> hex_b0"
    proof
      assume eq: "snd (calc_shift hex_a0 hex_b0 0) = hex_b0"
      have "drop_bit 2 (snd (calc_shift hex_a0 hex_b0 0) AND 0x1C) = ?k"
        unfolding result snd_conv using k blk by (intro repack_block) simp_all
      then have "block = ?k"
        unfolding eq block_def by simp
      with k show False by simp
    qed
    then have "calc_shift hex_a0 hex_b0 0 \<noteq> (hex_a0, hex_b0)"
      by auto
    moreover have "\<not> (512 \<le> f_num \<or> block = 0)"
      using True by simp
    ultimately show ?thesis
      unfolding block_def f_num_def f_high_def by simp
  next
    case False
    then have down: "block_down f_num block = (f_num, block)"
      by (rule block_down_stays)
    have low: "f_num AND 0xFF = hex_a0"
      using assms fh by (simp add: and_FF_mod f)
    have "drop_bit 8 f_num = f_high"
      using assms fh by (simp add: drop_bit_eq_div f)
    then have "drop_bit 8 f_num AND 0x03 = f_high"
      using fh by (simp add: and_03_mod)
    then have high: "drop_bit 8 f_num AND 0x03 = hex_b0 AND 0x03"
      by (simp only: f_high_def)
    have "calc_shift hex_a0 hex_b0 0 = (hex_a0, hex_b0 mod 64)"
      unfolding result down fst_conv snd_conv low high
      unfolding block_def repack_same ..
    moreover have "hex_b0 mod 64 = hex_b0 \<longleftrightarrow> hex_b0 < 64"
      using assms(3) by (auto simp add: zmod_trivial_iff)
    moreover have "512 \<le> f_num \<or> block = 0"
      using False blk by auto
    ultimately show ?thesis
      unfolding block_def f_num_def f_high_def by simp
  qed
qed

theorem calc_shift_zero_witness:
  "calc_shift 0xE2 0x32 0 = (0xE2, 0x32)"
  using calc_shift_zero [of "0xE2" "0x32"] by simp

end
